theory Spec2Isabelle
  imports Complex_Main "HOL-Library.Sublist" "HOL-Library.AList"
begin

section \<open>Python values, errors and byte strings\<close>

text \<open>
  The repository is Python 2 code (\<^verbatim>\<open>evaluate.py\<close> uses the print statement), so a
  \<^verbatim>\<open>str\<close> is a byte string and \<^verbatim>\<open>OrderedDict.values()\<close> is a list.
  Strings are modelled as \<^typ>\<open>string\<close>; \<^verbatim>\<open>upper\<close>, \<^verbatim>\<open>lower\<close> and
  \<^verbatim>\<open>strip\<close> act on the ASCII letters and the ASCII white space, as they do on a
  byte string in the C locale.
\<close>

datatype py_error =
    AttributeError
  | KeyError
  | ValueError
  | TypeError
  | IndexError
  | NameError
  | ZeroDivisionError
  | wrong_severity_value
  | diff_folders_content

text \<open>An attribute of a tag object holds a string or \<^verbatim>\<open>None\<close>.\<close>

datatype pyval = PyNone | PyStr string

definition lowercase :: string where
  "lowercase = ''abcdefghijklmnopqrstuvwxyz''"

definition uppercase :: string where
  "uppercase = ''ABCDEFGHIJKLMNOPQRSTUVWXYZ''"

definition upper_char :: "char \<Rightarrow> char" where
  "upper_char c = (case map_of (zip lowercase uppercase) c of Some u \<Rightarrow> u | None \<Rightarrow> c)"

definition lower_char :: "char \<Rightarrow> char" where
  "lower_char c = (case map_of (zip uppercase lowercase) c of Some l \<Rightarrow> l | None \<Rightarrow> c)"

definition upper :: "string \<Rightarrow> string" where
  "upper s = map upper_char s"

definition lower :: "string \<Rightarrow> string" where
  "lower s = map lower_char s"

definition is_space :: "char \<Rightarrow> bool" where
  "is_space c = ((of_char c :: nat) \<in> {9, 10, 11, 12, 13, 32})"

definition strip :: "string \<Rightarrow> string" where
  "strip s = rev (dropWhile is_space (rev (dropWhile is_space s)))"

definition is_digit :: "char \<Rightarrow> bool" where
  "is_digit c = (let n = (of_char c :: nat) in 48 \<le> n \<and> n \<le> 57)"

definition digit_val :: "char \<Rightarrow> int" where
  "digit_val c = int (of_char c) - 48"

text \<open>
  \<^verbatim>\<open>int(x)\<close> on a string: surrounding white space is dropped, one sign is allowed,
  and at least one decimal digit must follow; anything else is a \<^verbatim>\<open>ValueError\<close>
  (\<open>None\<close> here).
\<close>

definition py_int :: "string \<Rightarrow> int option" where
  "py_int s =
     (let t = strip s;
          neg = (case t of c # _ \<Rightarrow> c = CHR ''-'' | [] \<Rightarrow> False);
          ds = (case t of c # r \<Rightarrow> if c = CHR ''-'' \<or> c = CHR ''+'' then r else t | [] \<Rightarrow> [])
      in if ds \<noteq> [] \<and> list_all is_digit ds
         then Some ((if neg then - 1 else 1) * fold (\<lambda>c n. 10 * n + digit_val c) ds 0)
         else None)"

text \<open>\<^verbatim>\<open>x in s\<close> for two strings is the substring test.\<close>

fun str_contains :: "string \<Rightarrow> string \<Rightarrow> bool" where
  "str_contains [] sub = (sub = [])"
| "str_contains (c # cs) sub = (prefix sub (c # cs) \<or> str_contains cs sub)"

text \<open>
  A class attribute such as \<^verbatim>\<open>valid_TYPE\<close> is a list of strings or a single string;
  \<^verbatim>\<open>in\<close> means membership for the first and substring for the second.
\<close>

datatype vocab = VList "string list" | VStr string

fun py_in :: "string \<Rightarrow> vocab \<Rightarrow> bool" where
  "py_in x (VList l) = (x \<in> set l)"
| "py_in x (VStr s) = str_contains s x"

text \<open>Sequencing of computations that may raise: the first error is the result.\<close>

definition then_do :: "py_error + 'a \<Rightarrow> ('a \<Rightarrow> py_error + 'b) \<Rightarrow> py_error + 'b" where
  "then_do r f = (case r of Inl e \<Rightarrow> Inl e | Inr v \<Rightarrow> f v)"

section \<open>tags.py: the tag classes\<close>

text \<open>
  An lxml element as the constructors read it: its tag and its attribute dictionary.
\<close>

record element =
  tag :: string
  attrib :: "string \<rightharpoonup> string"

text \<open>
  A tag object: \<^verbatim>\<open>name\<close> is assigned by \<^verbatim>\<open>Tag.__init__\<close> on every object; the
  other instance attributes (\<^verbatim>\<open>id\<close> and whatever \<^verbatim>\<open>setattr\<close> adds) are a
  dictionary, so that an attribute that was never set is absent, which is what
  \<^verbatim>\<open>getattr\<close> answers with \<^verbatim>\<open>AttributeError\<close>.
\<close>

record tag_obj =
  name :: string
  dict :: "string \<rightharpoonup> pyval"

definition getattr :: "tag_obj \<Rightarrow> string \<Rightarrow> pyval option" where
  "getattr t k = (if k = ''name'' then Some (PyStr (name t)) else dict t k)"

text \<open>
  \<^verbatim>\<open>AnnotatorTag\<close> and the classes below it. A method takes the class of
  \<^verbatim>\<open>self\<close> as its first argument, which is where \<^verbatim>\<open>self.attributes\<close>,
  \<^verbatim>\<open>self.key\<close> and \<^verbatim>\<open>self._get_key\<close> are looked up. The base class \<^verbatim>\<open>Tag\<close>
  declares no attribute and no key; what it contributes is its constructor.
\<close>

datatype tag_class =
    AnnotatorTag
  | PHITag
  | NameTag
  | ProfessionTag
  | LocationTag
  | AgeTag
  | DateTag
  | ContactTag
  | IDTag
  | OtherTag

text \<open>\<^verbatim>\<open>Tag.__init__\<close> (lines 40-45).\<close>

definition Tag_init :: "element \<Rightarrow> tag_obj" where
  "Tag_init el =
     \<lparr>name = tag el,
      dict = [''id'' \<mapsto> (case attrib el ''id'' of Some v \<Rightarrow> PyStr v | None \<Rightarrow> PyStr [])]\<rparr>"

subsection \<open>Validators and the class attributes\<close>

type_synonym validator = "pyval \<Rightarrow> py_error + bool"

text \<open>\<^verbatim>\<open>lambda v: True\<close>\<close>

definition always_valid :: validator where
  "always_valid v = Inr True"

text \<open>
  \<^verbatim>\<open>isint\<close> (lines 131-136) catches \<^verbatim>\<open>ValueError\<close> only: \<^verbatim>\<open>int(None)\<close> is a
  \<^verbatim>\<open>TypeError\<close> and leaves the function.
\<close>

definition isint :: validator where
  "isint x = (case x of PyNone \<Rightarrow> Inl TypeError | PyStr s \<Rightarrow> Inr (py_int s \<noteq> None))"

text \<open>
  \<^verbatim>\<open>lambda v: v.upper() in C.valid_TYPE\<close> for the class attribute \<^verbatim>\<open>valid_TYPE\<close> of
  a class \<^verbatim>\<open>C\<close>; \<^verbatim>\<open>None\<close> has no \<^verbatim>\<open>upper\<close>.
\<close>

definition TYPE_in :: "vocab \<Rightarrow> validator" where
  "TYPE_in voc v =
     (case v of PyNone \<Rightarrow> Inl AttributeError | PyStr s \<Rightarrow> Inr (py_in (upper s) voc))"

definition PHITag_valid_TYPE :: vocab where
  "PHITag_valid_TYPE =
     VList [''PATIENT'', ''DOCTOR'', ''USERNAME'', ''PROFESSION'', ''ROOM'',
            ''DEPARTMENT'', ''HOSPITAL'', ''ORGANIZATION'', ''STREET'', ''CITY'',
            ''STATE'', ''COUNTRY'', ''ZIP'', ''OTHER'', ''LOCATION-OTHER'', ''AGE'',
            ''DATE'', ''PHONE'', ''FAX'', ''EMAIL'', ''URL'', ''IPADDR'', ''SSN'',
            ''MEDICALRECORD'', ''HEALTHPLAN'', ''ACCOUNT'', ''LICENSE'',
            ''VEHICLE'', ''DEVICE'', ''BIOID'', ''IDNUM'']"

text \<open>
  \<^verbatim>\<open>valid_TYPE\<close> of each class (lines 259-328). \<^verbatim>\<open>AnnotatorTag\<close> has none;
  \<^verbatim>\<open>OtherTag\<close> has the string \<^verbatim>\<open>'OTHER'\<close>, not a list.
\<close>

fun valid_TYPE :: "tag_class \<Rightarrow> vocab option" where
  "valid_TYPE AnnotatorTag = None"
| "valid_TYPE PHITag = Some PHITag_valid_TYPE"
| "valid_TYPE NameTag = Some (VList [''PATIENT'', ''DOCTOR'', ''USERNAME''])"
| "valid_TYPE ProfessionTag = Some (VList [''PROFESSION''])"
| "valid_TYPE LocationTag =
     Some (VList [''ROOM'', ''DEPARTMENT'', ''HOSPITAL'', ''ORGANIZATION'', ''STREET'',
                  ''CITY'', ''STATE'', ''COUNTRY'', ''ZIP'', ''LOCATION-OTHER''])"
| "valid_TYPE AgeTag = Some (VList [''AGE''])"
| "valid_TYPE DateTag = Some (VList [''DATE''])"
| "valid_TYPE ContactTag = Some (VList [''PHONE'', ''FAX'', ''EMAIL'', ''URL'', ''IPADDR''])"
| "valid_TYPE IDTag =
     Some (VList [''SSN'', ''MEDICALRECORD'', ''HEALTHPLAN'', ''ACCOUNT'',
                  ''LICENSE'', ''VEHICLE'', ''DEVICE'', ''BIOID'', ''IDNUM''])"
| "valid_TYPE OtherTag = Some (VStr ''OTHER'')"

text \<open>
  \<^verbatim>\<open>attributes\<close> is an \<^verbatim>\<open>OrderedDict\<close>: an association list, where assigning to a
  key that is present keeps its place and a new key goes to the end
  (\<^const>\<open>AList.update\<close>). \<^verbatim>\<open>PHITag\<close> copies the dictionary of
  \<^verbatim>\<open>AnnotatorTag\<close> and adds \<^verbatim>\<open>TYPE\<close>; each of the eight classes of
  \<^verbatim>\<open>PHI_TAG_CLASSES\<close> copies the one of \<^verbatim>\<open>PHITag\<close>, replaces \<^verbatim>\<open>TYPE\<close> and
  gets \<^verbatim>\<open>comment\<close> from the loop that ends the module. (Each of the eight has a
  \<^verbatim>\<open>valid_TYPE\<close>, so the first branch of the last equation is never taken.)
\<close>

definition AnnotatorTag_attributes :: "(string \<times> validator) list" where
  "AnnotatorTag_attributes =
     [(''id'', always_valid), (''docid'', always_valid), (''start'', isint),
      (''end'', isint), (''text'', always_valid)]"

definition PHITag_attributes :: "(string \<times> validator) list" where
  "PHITag_attributes =
     AList.update ''TYPE'' (TYPE_in PHITag_valid_TYPE) AnnotatorTag_attributes"

fun attributes :: "tag_class \<Rightarrow> (string \<times> validator) list" where
  "attributes AnnotatorTag = AnnotatorTag_attributes"
| "attributes PHITag = PHITag_attributes"
| "attributes c =
     (case valid_TYPE c of
        None \<Rightarrow> PHITag_attributes
      | Some voc \<Rightarrow>
          AList.update ''comment'' always_valid
            (AList.update ''TYPE'' (TYPE_in voc) PHITag_attributes))"

fun key :: "tag_class \<Rightarrow> string list" where
  "key AnnotatorTag = [''name'']"
| "key c = [''name'', ''start'', ''end'', ''TYPE'']"

subsection \<open>The constructor\<close>

text \<open>
  The two warnings of \<^verbatim>\<open>AnnotatorTag.__init__\<close>, with the arguments of their
  format strings.
\<close>

datatype warning =
    NotValid string string string string
  | Missing string string string

text \<open>
  The loop of \<^verbatim>\<open>AnnotatorTag.__init__\<close> (lines 166-185) over \<^verbatim>\<open>self.attributes\<close>:
  a value of the element is stored whether its validator accepts it or not, and an
  attribute of the key that the element lacks becomes the empty string.
\<close>

fun init_loop ::
  "string list \<Rightarrow> element \<Rightarrow> (string \<times> validator) list \<Rightarrow> tag_obj \<times> warning list
     \<Rightarrow> py_error + tag_obj \<times> warning list" where
  "init_loop ks el [] (t, out) = Inr (t, out)"
| "init_loop ks el ((k, validp) # rest) (t, out) =
     (case attrib el k of
        Some v \<Rightarrow>
          then_do (validp (PyStr v)) (\<lambda>ok.
            if ok then init_loop ks el rest (t\<lparr>dict := (dict t)(k \<mapsto> PyStr v)\<rparr>, out)
            else init_loop ks el rest
                   (t\<lparr>dict := (dict t)(k \<mapsto> PyStr v)\<rparr>,
                    out @ [NotValid k (tag el)
                             (case attrib el ''id'' of Some i \<Rightarrow> i | None \<Rightarrow> []) v]))
      | None \<Rightarrow>
          if k \<in> set ks
          then init_loop ks el rest
                 (t\<lparr>dict := (dict t)(k \<mapsto> PyStr [])\<rparr>,
                  out @ [Missing k (tag el)
                           (case attrib el ''id'' of Some i \<Rightarrow> i | None \<Rightarrow> [])])
          else init_loop ks el rest (t, out))"

text \<open>
  \<^verbatim>\<open>AnnotatorTag.__init__\<close> (lines 162-185): the base constructor runs, then
  \<^verbatim>\<open>self.id = None\<close>, then the loop.
\<close>

definition AnnotatorTag_init :: "tag_class \<Rightarrow> element \<Rightarrow> py_error + tag_obj \<times> warning list" where
  "AnnotatorTag_init c el =
     (let t = Tag_init el;
          t = t\<lparr>dict := (dict t)(''id'' \<mapsto> PyNone)\<rparr>
      in init_loop (key c) el (attributes c) (t, []))"

subsection \<open>Validation\<close>

text \<open>
  \<^verbatim>\<open>Tag.is_valid\<close> (lines 76-88). The \<^verbatim>\<open>try\<close> covers both \<^verbatim>\<open>getattr\<close> and the
  call of the validator, and catches \<^verbatim>\<open>AttributeError\<close> only.
\<close>

fun is_valid_loop :: "string list \<Rightarrow> tag_obj \<Rightarrow> (string \<times> validator) list \<Rightarrow> py_error + bool" where
  "is_valid_loop ks t [] = Inr True"
| "is_valid_loop ks t ((k, validp) # rest) =
     (case (case getattr t k of None \<Rightarrow> Inl AttributeError | Some v \<Rightarrow> validp v) of
        Inr ok \<Rightarrow> if \<not> ok then Inr False else is_valid_loop ks t rest
      | Inl e \<Rightarrow>
          if e = AttributeError
          then (if k \<in> set ks then Inr False else is_valid_loop ks t rest)
          else Inl e)"

definition is_valid :: "tag_class \<Rightarrow> tag_obj \<Rightarrow> py_error + bool" where
  "is_valid c t = is_valid_loop (key c) t (attributes c)"

text \<open>\<^verbatim>\<open>AnnotatorTag.validate\<close> (lines 226-237).\<close>

fun validate_loop :: "string list \<Rightarrow> tag_obj \<Rightarrow> (string \<times> validator) list \<Rightarrow> py_error + bool" where
  "validate_loop ks t [] = Inr True"
| "validate_loop ks t ((k, validp) # rest) =
     (case (case getattr t k of None \<Rightarrow> Inl AttributeError | Some v \<Rightarrow> validp v) of
        Inr ok \<Rightarrow> if ok then validate_loop ks t rest else Inr False
      | Inl e \<Rightarrow>
          if e = AttributeError
          then (if k \<in> set ks then Inr False else validate_loop ks t rest)
          else Inl e)"

definition validate :: "tag_class \<Rightarrow> tag_obj \<Rightarrow> py_error + bool" where
  "validate c t = validate_loop (key c) t (attributes c)"

subsection \<open>The key and the boundary-tolerant policy\<close>

text \<open>
  \<^verbatim>\<open>_get_key\<close>: \<^verbatim>\<open>Tag._get_key\<close> (lines 47-51) lowers each value of the key,
  \<^verbatim>\<open>PHITag._get_key\<close> (lines 270-274) raises it to upper case. An attribute that is
  not set, or that is \<^verbatim>\<open>None\<close>, is an \<^verbatim>\<open>AttributeError\<close>.
\<close>

fun get_key_loop :: "(string \<Rightarrow> string) \<Rightarrow> tag_obj \<Rightarrow> string list \<Rightarrow> py_error + string list" where
  "get_key_loop cased t [] = Inr []"
| "get_key_loop cased t (k # ks) =
     (case getattr t k of
        Some (PyStr s) \<Rightarrow> then_do (get_key_loop cased t ks) (\<lambda>r. Inr (cased s # r))
      | _ \<Rightarrow> Inl AttributeError)"

definition get_key :: "tag_class \<Rightarrow> tag_obj \<Rightarrow> py_error + string list" where
  "get_key c t = get_key_loop (if c = AnnotatorTag then lower else upper) t (key c)"

text \<open>
  \<^verbatim>\<open>OrderedDict(pairs)\<close>, \<^verbatim>\<open>d.pop(k)\<close> and \<^verbatim>\<open>d.values()\<close> on association lists;
  \<^verbatim>\<open>d[k] = v\<close> is \<^const>\<open>AList.update\<close>.
\<close>

definition OrderedDict :: "('k \<times> 'v) list \<Rightarrow> ('k \<times> 'v) list" where
  "OrderedDict kvs = fold (\<lambda>(k, v). AList.update k v) kvs []"

definition odict_pop :: "'k \<Rightarrow> ('k \<times> 'v) list \<Rightarrow> py_error + 'v \<times> ('k \<times> 'v) list" where
  "odict_pop k d = (case map_of d k of None \<Rightarrow> Inl KeyError | Some v \<Rightarrow> Inr (v, AList.delete k d))"

definition odict_values :: "('k \<times> 'v) list \<Rightarrow> 'v list" where
  "odict_values d = map snd d"

definition int_of_str :: "string \<Rightarrow> py_error + int" where
  "int_of_str s = (case py_int s of None \<Rightarrow> Inl ValueError | Some i \<Rightarrow> Inr i)"

text \<open>
  \<^verbatim>\<open>_fuzzy_end__eq__\<close> (lines 196-207), the \<^verbatim>\<open>__eq__\<close> that
  \<^verbatim>\<open>fuzzy_end_equality(distance)\<close> installs. The arguments are \<^verbatim>\<open>self\<close> and
  \<^verbatim>\<open>other\<close>, each with its class.
\<close>

definition fuzzy_end_eq ::
  "int \<Rightarrow> tag_class \<Rightarrow> tag_obj \<Rightarrow> tag_class \<Rightarrow> tag_obj \<Rightarrow> py_error + bool" where
  "fuzzy_end_eq distance cs self co other =
     then_do (get_key cs self) (\<lambda>sk.
     then_do (get_key co other) (\<lambda>ok.
       let self_dict = OrderedDict (zip (key cs) sk);
           other_dict = OrderedDict (zip (key co) ok)
       in then_do (odict_pop ''end'' self_dict) (\<lambda>(se, self_dict).
          then_do (int_of_str se) (\<lambda>self_end.
          then_do (odict_pop ''end'' other_dict) (\<lambda>(oe, other_dict).
          then_do (int_of_str oe) (\<lambda>other_end.
            Inr (odict_values self_dict = odict_values other_dict
                 \<and> \<bar>self_end - other_end\<bar> \<le> distance)))))))"



section \<open>evaluate.py\<close>

subsection \<open>The filter predicate\<close>

text \<open>What the functions of \<^verbatim>\<open>evaluate.py\<close> print before they return or raise.\<close>

datatype printed =
    NoClassAttribute string
  | InvalidSeverity string string
  | FoldersDiffer

text \<open>
  \<^verbatim>\<open>PHITag.tag_types\<close> (lines 333-342 of \<^verbatim>\<open>tags.py\<close>), the only attribute of its
  argument \<^verbatim>\<open>tag\<close> that \<^verbatim>\<open>get_predicate_function\<close> reads.
\<close>

definition PHITag_tag_types :: "(string \<times> tag_class) list" where
  "PHITag_tag_types =
     [(''PHI'', PHITag), (''NAME'', NameTag), (''PROFESSION'', ProfessionTag),
      (''LOCATION'', LocationTag), (''AGE'', AgeTag), (''DATE'', DateTag),
      (''CONTACT'', ContactTag), (''ID'', IDTag), (''OTHER'', OtherTag)]"

text \<open>
  Line 149 reads the global name \<^verbatim>\<open>MEDICAL_TAG_CLASSES\<close>. The module neither defines
  nor imports it (its imports are lines 109-123), so the name is unbound: \<open>None\<close>.
  A bound name would hold a list of classes, each a dictionary of class attributes.
\<close>

definition MEDICAL_TAG_CLASSES :: "(string \<rightharpoonup> vocab) list option" where
  "MEDICAL_TAG_CLASSES = None"

definition tag_attributes :: "string list" where
  "tag_attributes =
     [''valid_type1'', ''valid_type2'', ''valid_indicator'',
      ''valid_status'', ''valid_time'', ''valid_type'']"

text \<open>\<^verbatim>\<open>attr.replace("valid_", "")\<close>\<close>

fun replace_valid :: "string \<Rightarrow> string" where
  "replace_valid [] = []"
| "replace_valid (c # cs) =
     (if prefix ''valid_'' (c # cs) then replace_valid (drop 5 cs) else c # replace_valid cs)"

text \<open>
  The inner loop of lines 150-159 for one class: an attribute the class lacks is
  skipped (\<^verbatim>\<open>AttributeError\<close>, \<^verbatim>\<open>continue\<close>).
\<close>

fun scan_class :: "string \<Rightarrow> (string \<rightharpoonup> vocab) \<Rightarrow> string list \<Rightarrow> string list" where
  "scan_class arg cls [] = []"
| "scan_class arg cls (attr # rest) =
     (case cls attr of
        None \<Rightarrow> scan_class arg cls rest
      | Some voc \<Rightarrow>
          (if py_in arg voc then [replace_valid attr] else []) @ scan_class arg cls rest)"

text \<open>
  Lines 140-169: the list \<^verbatim>\<open>attrs\<close>, with the binding \<open>g\<close> of the global name.
  \<^verbatim>\<open>list(set(attrs))\<close> removes duplicates.
\<close>

definition resolve_attrs ::
  "(string \<rightharpoonup> vocab) list option \<Rightarrow> (string \<times> tag_class) list \<Rightarrow> string
     \<Rightarrow> py_error + string list" where
  "resolve_attrs g tag_types arg =
     (if arg \<in> set (map fst tag_types) then Inr (remdups [''name''])
      else (case g of
              None \<Rightarrow> Inl NameError
            | Some clss \<Rightarrow>
                Inr (remdups (concat (map (\<lambda>cls. scan_class arg cls tag_attributes) clss)))))"

text \<open>
  \<^verbatim>\<open>matchp\<close> (lines 179-189), with \<^verbatim>\<open>attrs\<close> and \<^verbatim>\<open>arg\<close> of its closure. The
  \<^verbatim>\<open>try\<close> catches the \<^verbatim>\<open>AttributeError\<close> of an attribute that is not set and of
  \<^verbatim>\<open>None.lower()\<close>.
\<close>

fun matchp :: "string list \<Rightarrow> string \<Rightarrow> tag_obj \<Rightarrow> bool" where
  "matchp [] arg t = False"
| "matchp (attr # rest) arg t =
     (if attr = ''name'' \<and> name t = arg then True
      else (case getattr t attr of
              Some (PyStr s) \<Rightarrow> if lower s = lower arg then True else matchp rest arg t
            | _ \<Rightarrow> matchp rest arg t))"

text \<open>\<^verbatim>\<open>get_predicate_function(arg, tag)\<close> (lines 129-191); \<^verbatim>\<open>tag_types\<close> is \<^verbatim>\<open>tag.tag_types\<close>.\<close>

definition get_predicate_function ::
  "string \<Rightarrow> (string \<times> tag_class) list \<Rightarrow> py_error + printed list \<times> (tag_obj \<Rightarrow> bool)" where
  "get_predicate_function arg tag_types =
     then_do (resolve_attrs MEDICAL_TAG_CLASSES tag_types arg) (\<lambda>attrs.
       if length attrs = 0 then Inr ([NoClassAttribute arg], \<lambda>t. True)
       else Inr ([], matchp attrs arg))"

subsection \<open>The ordinal track\<close>

definition level2score :: "string \<rightharpoonup> int" where
  "level2score = map_of [(''ABSENT'', 0), (''MILD'', 1), (''MODERATE'', 2), (''SEVERE'', 3)]"

text \<open>
  \<^verbatim>\<open>get_prediction\<close> (lines 293-304). \<open>found\<close> is the list that
  \<^verbatim>\<open>source.findall('./TAGS/POSITIVE_VALENCE')\<close> returns for the parsed file.
\<close>

definition get_prediction :: "string \<Rightarrow> element list \<Rightarrow> printed list \<times> (py_error + int)" where
  "get_prediction file_path found =
     (case found of
        [] \<Rightarrow> ([], Inl IndexError)
      | e # _ \<Rightarrow>
          (case attrib e ''score'' of
             None \<Rightarrow> ([], Inl KeyError)
           | Some s \<Rightarrow>
               (let score = strip (upper s)
                in case level2score score of
                     Some n \<Rightarrow> ([], Inr n)
                   | None \<Rightarrow> ([InvalidSeverity file_path score], Inl wrong_severity_value))))"

text \<open>
  \<^verbatim>\<open>mean_absolute_error\<close> (lines 306-309) and \<^verbatim>\<open>compute_score\<close> (lines 311-347).
  The float64 arithmetic of numpy is modelled by exact arithmetic on \<^typ>\<open>real\<close>:
  rounding is not part of the model.
\<close>

definition mean_absolute_error :: "int list \<Rightarrow> int list \<Rightarrow> real" where
  "mean_absolute_error gold system =
     real_of_int (sum_list (map (\<lambda>(g, s). \<bar>s - g\<bar>) (zip gold system))) / real (length gold)"

type_synonym stats = "int \<rightharpoonup> nat \<times> nat \<times> real"

text \<open>
  The loop over \<^verbatim>\<open>set(x)\<close>. Unpacking \<^verbatim>\<open>zip(*[])\<close> into two names is a
  \<^verbatim>\<open>ValueError\<close> outside the \<^verbatim>\<open>try\<close>.
\<close>

fun score_loop ::
  "int list \<Rightarrow> int list \<Rightarrow> int list \<Rightarrow> real list \<times> stats \<Rightarrow> py_error + real list \<times> stats" where
  "score_loop x y [] (mae_per_score, stats_per_score) = Inr (mae_per_score, stats_per_score)"
| "score_loop x y (score # rest) (mae_per_score, stats_per_score) =
     (case filter (\<lambda>(a, b). a = score) (zip x y) of
        [] \<Rightarrow> Inl ValueError
      | p # ps \<Rightarrow>
          (let x_n = map fst (p # ps);
               y_n = map snd (p # ps);
               normalisation_factor = (if score \<in> {0, 3} then 3 else 2);
               result = 100 * (1 - mean_absolute_error x_n y_n / normalisation_factor)
           in score_loop x y rest
                (mae_per_score @ [result],
                 stats_per_score(score \<mapsto> (length x_n, count_list y score, result)))))"

definition compute_score :: "int list \<Rightarrow> int list \<Rightarrow> py_error + stats \<times> real" where
  "compute_score x y =
     then_do (score_loop x y (remdups x) ([], Map.empty)) (\<lambda>(mae_per_score, stats_per_score).
       if length (remdups x) = 0 then Inl ZeroDivisionError
       else Inr (stats_per_score, sum_list mae_per_score / real (length (remdups x))))"

text \<open>
  The list comprehensions of lines 355-356 over the files of a folder, each with what
  \<^verbatim>\<open>findall\<close> returns for it: the first exception ends the comprehension.
\<close>

fun predictions :: "(string \<times> element list) list \<Rightarrow> printed list \<times> (py_error + int list)" where
  "predictions [] = ([], Inr [])"
| "predictions ((f, found) # rest) =
     (case get_prediction f found of
        (out, Inl e) \<Rightarrow> (out, Inl e)
      | (out, Inr v) \<Rightarrow>
          (case predictions rest of
             (out', Inl e) \<Rightarrow> (out @ out', Inl e)
           | (out', Inr vs) \<Rightarrow> (out @ out', Inr (v # vs))))"

text \<open>
  \<^verbatim>\<open>evaluate_rdoc\<close> up to the call of \<^verbatim>\<open>compute_score\<close> (lines 349-358). The two
  arguments are the XML files of the two folders in sorted order, each a base name
  with the result of \<^verbatim>\<open>findall\<close>. The report that lines 359-384 print from the
  returned value is not modelled.
\<close>

definition evaluate_rdoc ::
  "(string \<times> element list) list \<Rightarrow> (string \<times> element list) list
     \<Rightarrow> printed list \<times> (py_error + stats \<times> real)" where
  "evaluate_rdoc gold syst =
     (if set (map fst gold) \<noteq> set (map fst syst) then ([FoldersDiffer], Inl diff_folders_content)
      else (case predictions gold of
              (out, Inl e) \<Rightarrow> (out, Inl e)
            | (out, Inr X) \<Rightarrow>
                (case predictions syst of
                   (out', Inl e) \<Rightarrow> (out @ out', Inl e)
                 | (out', Inr Y) \<Rightarrow> (out @ out', compute_score X Y))))"

section \<open>Notions used to state the properties\<close>

text \<open>
  What \<^verbatim>\<open>getattr(t, k)\<close> gives on the object \<^verbatim>\<open>t\<close> that the constructor of class
  \<open>c\<close> builds from the element \<open>el\<close>.
\<close>

definition constructed_attr :: "tag_class \<Rightarrow> element \<Rightarrow> string \<Rightarrow> py_error + pyval option" where
  "constructed_attr c el k =
     (case AnnotatorTag_init c el of Inl e \<Rightarrow> Inl e | Inr (t, out) \<Rightarrow> Inr (getattr t k))"

text \<open>
  The value of a declared attribute \<open>k\<close> after the constructor's loop, given the value
  \<open>old\<close> it had before: the element's value, or the empty string for an attribute of
  the key \<open>ks\<close> that the element lacks, or the old value.
\<close>

definition init_value :: "string list \<Rightarrow> element \<Rightarrow> string \<Rightarrow> pyval option \<Rightarrow> pyval option" where
  "init_value ks el k old =
     (case attrib el k of
        Some v \<Rightarrow> Some (PyStr v)
      | None \<Rightarrow> if k \<in> set ks then Some (PyStr []) else old)"

text \<open>\<^verbatim>\<open>c.attributes[k](v)\<close>: the validator that class \<open>c\<close> declares for \<open>k\<close>, applied to \<open>v\<close>.\<close>

definition validator_of :: "tag_class \<Rightarrow> string \<Rightarrow> pyval \<Rightarrow> py_error + bool" where
  "validator_of c k v =
     (case map_of (attributes c) k of None \<Rightarrow> Inl KeyError | Some validp \<Rightarrow> validp v)"

text \<open>
  The state of a tag in which no declared attribute other than \<^verbatim>\<open>id\<close> is
  \<^verbatim>\<open>None\<close>: what the constructor establishes, since it stores strings only and
  \<^verbatim>\<open>None\<close> in \<^verbatim>\<open>id\<close>.
\<close>

definition string_valued :: "tag_class \<Rightarrow> tag_obj \<Rightarrow> bool" where
  "string_valued c t =
     (\<forall>k \<in> fst ` set (attributes c). k \<noteq> ''id'' \<longrightarrow> getattr t k \<noteq> Some PyNone)"

text \<open>The four severity labels of the ordinal track.\<close>

definition severity_labels :: "string set" where
  "severity_labels = {''ABSENT'', ''MILD'', ''MODERATE'', ''SEVERE''}"

text \<open>
  The ordinal score in the words of the specification: the positions at which the gold
  sequence holds the value \<open>s\<close>, the mean absolute error over them, the worst error of
  a value, and the percentage of a class.
\<close>

definition positions :: "int list \<Rightarrow> int \<Rightarrow> nat list" where
  "positions x s = filter (\<lambda>i. x ! i = s) [0..<length x]"

definition spec_MAE :: "int list \<Rightarrow> int list \<Rightarrow> int \<Rightarrow> real" where
  "spec_MAE x y s =
     real_of_int (\<Sum>i\<leftarrow>positions x s. \<bar>y ! i - x ! i\<bar>) / real (length (positions x s))"

definition spec_norm :: "int \<Rightarrow> real" where
  "spec_norm s = (if s = 1 \<or> s = 2 then 2 else 3)"

definition spec_class_score :: "int list \<Rightarrow> int list \<Rightarrow> int \<Rightarrow> real" where
  "spec_class_score x y s = 100 * (1 - spec_MAE x y s / spec_norm s)"

text \<open>
  The percentage that the loop of \<^verbatim>\<open>compute_score\<close> computes for the gold value \<open>s\<close>,
  with the normalisation factor as line 330 chooses it.
\<close>

definition loop_class_score :: "int list \<Rightarrow> int list \<Rightarrow> int \<Rightarrow> real" where
  "loop_class_score x y s = 100 * (1 - spec_MAE x y s / (if s \<in> {0, 3} then 3 else 2))"

section \<open>Properties\<close>

subsection \<open>Evaluation of the string functions\<close>

lemmas str_eval = upper_def upper_char_def lower_def lower_char_def lowercase_def uppercase_def
  strip_def is_space_def
lemmas int_eval = py_int_def is_digit_def digit_val_def

lemma upper_char_cases: "upper_char c = c \<or> (c \<in> set lowercase \<and> upper_char c \<in> set uppercase)"
proof (cases "map_of (zip lowercase uppercase) c")
  case None
  then show ?thesis by (simp add: upper_char_def)
next
  case (Some u)
  then have "(c, u) \<in> set (zip lowercase uppercase)" by (rule map_of_SomeD)
  then have "c \<in> set lowercase \<and> u \<in> set uppercase" by (auto dest: set_zip_leftD set_zip_rightD)
  with Some show ?thesis by (simp add: upper_char_def)
qed

lemma letters_plain:
  "c \<in> set lowercase \<union> set uppercase \<Longrightarrow>
     \<not> is_space c \<and> \<not> is_digit c \<and> c \<noteq> CHR ''-'' \<and> c \<noteq> CHR ''+''"
  by (auto simp: lowercase_def uppercase_def is_space_def is_digit_def)

lemma is_space_upper_char: "is_space (upper_char c) = is_space c"
  using upper_char_cases [of c] letters_plain [of c] letters_plain [of "upper_char c"] by auto

lemma is_digit_upper_char: "is_digit (upper_char c) = is_digit c"
  using upper_char_cases [of c] letters_plain [of c] letters_plain [of "upper_char c"] by auto

lemma upper_char_sign: "upper_char c = CHR ''-'' \<longleftrightarrow> c = CHR ''-''" "upper_char c = CHR ''+'' \<longleftrightarrow> c = CHR ''+''"
  using upper_char_cases [of c] letters_plain [of c] letters_plain [of "upper_char c"] by auto

lemma digit_upper_char: "is_digit c \<Longrightarrow> upper_char c = c"
  using upper_char_cases [of c] letters_plain [of c] by auto

lemma dropWhile_space_upper: "dropWhile is_space (map upper_char s) = map upper_char (dropWhile is_space s)"
  by (induction s) (simp_all add: is_space_upper_char)

lemma strip_upper: "strip (upper s) = upper (strip s)"
  by (simp add: strip_def upper_def dropWhile_space_upper rev_map)

lemma digits_upper: "list_all is_digit ds \<Longrightarrow> map upper_char ds = ds"
  by (induction ds) (simp_all add: digit_upper_char)

lemma list_all_digit_upper: "list_all is_digit (map upper_char ds) = list_all is_digit ds"
  by (induction ds) (simp_all add: is_digit_upper_char)

lemma py_int_upper: "py_int (upper s) = py_int s"
proof (cases "strip s")
  case Nil
  then show ?thesis unfolding py_int_def strip_upper by (simp add: upper_def)
next
  case (Cons c r)
  show ?thesis
  proof (cases "c = CHR ''-'' \<or> c = CHR ''+''")
    case True
    then show ?thesis
      unfolding py_int_def strip_upper
      using Cons digits_upper [of r]
      by (auto simp: upper_def upper_char_sign list_all_digit_upper Let_def)
  next
    case False
    then show ?thesis
      unfolding py_int_def strip_upper
      using Cons digits_upper [of "c # r"]
      by (auto simp: upper_def upper_char_sign list_all_digit_upper
            is_digit_upper_char Let_def)
  qed
qed

subsection \<open>The boundary-tolerant policy\<close>

lemma key_PHI: "c \<noteq> AnnotatorTag \<Longrightarrow> key c = [''name'', ''start'', ''end'', ''TYPE'']"
  by (cases c) simp_all

lemma get_key_PHI:
  assumes "c \<noteq> AnnotatorTag"
    and "dict a ''start'' = Some (PyStr s)" "dict a ''end'' = Some (PyStr e)"
    and "dict a ''TYPE'' = Some (PyStr ty)"
  shows "get_key c a = Inr [upper (name a), upper s, upper e, upper ty]"
  using assms by (simp add: get_key_def key_PHI getattr_def then_do_def)

lemma OrderedDict_PHI:
  "OrderedDict [(''name'', n), (''start'', s), (''end'', e), (''TYPE'', ty)] =
     [(''name'', n), (''start'', s), (''end'', e), (''TYPE'', ty)]"
  by (simp add: OrderedDict_def)

lemma pop_end_PHI:
  "odict_pop ''end'' [(''name'', n), (''start'', s), (''end'', e), (''TYPE'', ty)] =
     Inr (e, [(''name'', n), (''start'', s), (''TYPE'', ty)])"
  by (simp add: odict_pop_def)

text \<open>
  Claim C1. Under the boundary-tolerant policy with tolerance \<open>d\<close>, two tags of the
  PHI classes whose key attributes \<^verbatim>\<open>start\<close>, \<^verbatim>\<open>end\<close> and \<^verbatim>\<open>TYPE\<close> are strings
  and whose \<^verbatim>\<open>end\<close> values parse as the integers \<open>i\<close> and \<open>j\<close> compare equal if and
  only if \<^verbatim>\<open>name\<close>, \<^verbatim>\<open>start\<close> and \<^verbatim>\<open>TYPE\<close> agree after case normalisation
  and \<open>\<bar>i - j\<bar> \<le> d\<close>. The comparison never raises there. Hence two tags that differ
  in \<^verbatim>\<open>end\<close> by more than \<open>d\<close>, or in another key attribute, are not equal.
  Every tag that the constructor of a PHI class builds has the three attributes set to
  strings.
\<close>

theorem fuzzy_end_eq_iff:
  assumes "cs \<noteq> AnnotatorTag" and "co \<noteq> AnnotatorTag"
    and "dict a ''start'' = Some (PyStr sa)" and "dict a ''end'' = Some (PyStr ea)"
    and "dict a ''TYPE'' = Some (PyStr ta)"
    and "dict b ''start'' = Some (PyStr sb)" and "dict b ''end'' = Some (PyStr eb)"
    and "dict b ''TYPE'' = Some (PyStr tb)"
    and "py_int ea = Some i" and "py_int eb = Some j"
  shows "fuzzy_end_eq d cs a co b =
           Inr (upper (name a) = upper (name b) \<and> upper sa = upper sb \<and> upper ta = upper tb
                \<and> \<bar>i - j\<bar> \<le> d)"
proof -
  have ka: "get_key cs a = Inr [upper (name a), upper sa, upper ea, upper ta]"
    using assms by (simp add: get_key_PHI)
  have kb: "get_key co b = Inr [upper (name b), upper sb, upper eb, upper tb]"
    using assms by (simp add: get_key_PHI)
  have ia: "int_of_str (upper ea) = Inr i" and ib: "int_of_str (upper eb) = Inr j"
    using assms by (simp_all add: int_of_str_def py_int_upper)
  show ?thesis
    unfolding fuzzy_end_eq_def ka kb key_PHI [OF assms(1)] key_PHI [OF assms(2)]
    by (simp add: then_do_def OrderedDict_PHI pop_end_PHI ia ib odict_values_def)
qed

theorem fuzzy_end_eq_iff_witness:
  "py_int ''15'' = Some 15 \<and> py_int ''17'' = Some 17 \<and>
   fuzzy_end_eq 2 DateTag
     \<lparr>name = ''DATE'', dict = [''start'' \<mapsto> PyStr ''10'', ''end'' \<mapsto> PyStr ''15'', ''TYPE'' \<mapsto> PyStr ''date'']\<rparr>
     PHITag
     \<lparr>name = ''date'', dict = [''start'' \<mapsto> PyStr ''10'', ''end'' \<mapsto> PyStr ''17'', ''TYPE'' \<mapsto> PyStr ''DATE'']\<rparr>
     = Inr True \<and>
   fuzzy_end_eq 1 DateTag
     \<lparr>name = ''DATE'', dict = [''start'' \<mapsto> PyStr ''10'', ''end'' \<mapsto> PyStr ''15'', ''TYPE'' \<mapsto> PyStr ''date'']\<rparr>
     PHITag
     \<lparr>name = ''date'', dict = [''start'' \<mapsto> PyStr ''10'', ''end'' \<mapsto> PyStr ''17'', ''TYPE'' \<mapsto> PyStr ''DATE'']\<rparr>
     = Inr False"
proof -
  have a: "py_int ''15'' = Some 15" and b: "py_int ''17'' = Some 17"
    by (simp_all add: int_eval str_eval)
  let ?a = "\<lparr>name = ''DATE'', dict = [''start'' \<mapsto> PyStr ''10'', ''end'' \<mapsto> PyStr ''15'', ''TYPE'' \<mapsto> PyStr ''date'']\<rparr>"
  let ?b = "\<lparr>name = ''date'', dict = [''start'' \<mapsto> PyStr ''10'', ''end'' \<mapsto> PyStr ''17'', ''TYPE'' \<mapsto> PyStr ''DATE'']\<rparr>"
  have "fuzzy_end_eq 2 DateTag ?a PHITag ?b = Inr True"
    using fuzzy_end_eq_iff [of DateTag PHITag ?a "''10''" "''15''" "''date''" ?b "''10''" "''17''" "''DATE''" 15 17 2] a b
    by (simp add: str_eval)
  moreover have "fuzzy_end_eq 1 DateTag ?a PHITag ?b = Inr False"
    using fuzzy_end_eq_iff [of DateTag PHITag ?a "''10''" "''15''" "''date''" ?b "''10''" "''17''" "''DATE''" 15 17 1] a b
    by (simp add: str_eval)
  ultimately show ?thesis using a b by simp
qed











subsection \<open>Construction of tags\<close>

lemmas attrs_defs = AnnotatorTag_attributes_def PHITag_attributes_def

lemma attr_names:
  "fst ` set (attributes c) \<subseteq> {''id'', ''docid'', ''start'', ''end'', ''text'', ''TYPE'', ''comment''}"
  by (cases c) (simp_all add: attrs_defs)

lemma validator_on_str:
  "(k, validp) \<in> set (attributes c) \<Longrightarrow> \<exists>b. validp (PyStr s) = Inr b"
  by (cases c) (auto simp: attrs_defs always_valid_def isint_def TYPE_in_def)

lemma validator_id:
  "(''id'', validp) \<in> set (attributes c) \<Longrightarrow> validp v = Inr True"
  by (cases c) (auto simp: attrs_defs always_valid_def)

lemma key_in_attributes:
  "k \<in> set (key c) \<Longrightarrow> k = ''name'' \<or> k \<in> fst ` set (attributes c)"
  by (cases c) (auto simp: attrs_defs)

lemma name_not_attribute: "''name'' \<notin> fst ` set (attributes c)"
  using attr_names [of c] by auto

lemma dict_step:
  assumes "\<And>k'. d' k' = (if k' \<in> A then init_value ks el k' (d0 k') else d0 k')"
    and "d0 = d(k := init_value ks el k (d k))"
  shows "d' k' = (if k' \<in> insert k A then init_value ks el k' (d k') else d k')"
  using assms by (auto simp: init_value_def split: option.splits)

lemma init_loop_result:
  assumes "\<forall>(k, validp) \<in> set as. \<forall>s. \<exists>b. validp (PyStr s) = Inr b"
  shows "\<exists>t' out'. init_loop ks el as (t, out) = Inr (t', out') \<and> name t' = name t \<and>
           (\<forall>k. dict t' k =
              (if k \<in> fst ` set as then init_value ks el k (dict t k) else dict t k))"
  using assms
proof (induction as arbitrary: t out)
  case Nil
  then show ?case by simp
next
  case (Cons a as)
  obtain k validp where a: "a = (k, validp)" by (cases a)
  from Cons.prems have rest: "\<forall>(k, validp) \<in> set as. \<forall>s. \<exists>b. validp (PyStr s) = Inr b"
    by simp
  have "\<exists>t0 out0. init_loop ks el (a # as) (t, out) = init_loop ks el as (t0, out0) \<and>
          name t0 = name t \<and> dict t0 = (dict t)(k := init_value ks el k (dict t k))"
  proof (cases "attrib el k")
    case None
    then show ?thesis
      by (cases "k \<in> set ks") (auto simp: a init_value_def)
  next
    case (Some v)
    from Cons.prems a have "\<forall>s. \<exists>b. validp (PyStr s) = Inr b" by simp
    then obtain b where b: "validp (PyStr v) = Inr b" by blast
    with Some show ?thesis
      by (cases b) (auto simp: a init_value_def then_do_def)
  qed
  then obtain t0 out0 where
    step: "init_loop ks el (a # as) (t, out) = init_loop ks el as (t0, out0)" and
    n0: "name t0 = name t" and
    d0: "dict t0 = (dict t)(k := init_value ks el k (dict t k))"
    by blast
  from Cons.IH [OF rest, of t0 out0] obtain t' out' where
    r: "init_loop ks el as (t0, out0) = Inr (t', out')" and
    n: "name t' = name t0" and
    d: "\<And>k'. dict t' k' =
          (if k' \<in> fst ` set as then init_value ks el k' (dict t0 k') else dict t0 k')"
    by blast
  have "\<forall>k'. dict t' k' =
          (if k' \<in> fst ` set (a # as) then init_value ks el k' (dict t k') else dict t k')"
    using dict_step [of "dict t'" "fst ` set as" ks el "dict t0" "dict t" k, OF d d0]
    by (simp add: a)
  with step r n n0 show ?case by simp
qed

lemma AnnotatorTag_init_result:
  "\<exists>t out. AnnotatorTag_init c el = Inr (t, out) \<and> name t = tag el \<and>
     (\<forall>k. dict t k =
        (if k \<in> fst ` set (attributes c)
         then init_value (key c) el k (if k = ''id'' then Some PyNone else None)
         else if k = ''id'' then Some PyNone else None))"
proof -
  have "\<forall>(k, validp) \<in> set (attributes c). \<forall>s. \<exists>b. validp (PyStr s) = Inr b"
    using validator_on_str by blast
  from init_loop_result [OF this, of "key c" el
      "(Tag_init el)\<lparr>dict := (dict (Tag_init el))(''id'' \<mapsto> PyNone)\<rparr>" "[]"]
  show ?thesis
    by (auto simp: AnnotatorTag_init_def Let_def Tag_init_def)
qed

lemma PHI_key_attributes:
  assumes "c \<noteq> AnnotatorTag" and "k \<in> {''start'', ''end'', ''TYPE''}"
  shows "k \<in> fst ` set (attributes c) \<and> k \<in> set (key c)"
  using assms by (cases c) (auto simp: attrs_defs)

text \<open>
  Every tag that the constructor of a PHI class builds has its \<^verbatim>\<open>start\<close>, \<^verbatim>\<open>end\<close>
  and \<^verbatim>\<open>TYPE\<close> set to strings: the value of the element, or the empty string.
\<close>

lemma constructed_PHI_key_attrs:
  assumes "c \<noteq> AnnotatorTag" and "AnnotatorTag_init c el = Inr (t, out)"
    and "k \<in> {''start'', ''end'', ''TYPE''}"
  shows "name t = tag el \<and>
         dict t k = Some (PyStr (case attrib el k of Some v \<Rightarrow> v | None \<Rightarrow> []))"
proof -
  from AnnotatorTag_init_result [of c el] assms(2) have
    n: "name t = tag el" and
    d: "\<And>k. dict t k =
        (if k \<in> fst ` set (attributes c)
         then init_value (key c) el k (if k = ''id'' then Some PyNone else None)
         else if k = ''id'' then Some PyNone else None)"
    by auto
  from d [of k] PHI_key_attributes [OF assms(1,3)] n show ?thesis
    by (simp add: init_value_def split: option.splits)
qed

lemma id_attribute: "''id'' \<in> fst ` set (attributes c)"
  by (cases c) (simp_all add: attrs_defs)

lemma id_not_key: "''id'' \<notin> set (key c)"
  by (cases c) simp_all

text \<open>
  Claim C7, as amended. For an element without an \<^verbatim>\<open>id\<close> attribute, the base
  constructor \<^verbatim>\<open>Tag.__init__\<close> sets \<^verbatim>\<open>id\<close> to the empty string, while the
  constructor of \<^verbatim>\<open>AnnotatorTag\<close> and of each of its subclasses always succeeds and
  leaves \<^verbatim>\<open>id\<close> set to \<^verbatim>\<open>None\<close>: line 164 overwrites the empty string and the loop
  does not touch \<^verbatim>\<open>id\<close>, which is not in the key.
\<close>

theorem id_of_constructed_tag:
  assumes "attrib el ''id'' = None"
  shows "dict (Tag_init el) ''id'' = Some (PyStr []) \<and>
         constructed_attr c el ''id'' = Inr (Some PyNone)"
proof -
  from AnnotatorTag_init_result [of c el] obtain t out where
    t: "AnnotatorTag_init c el = Inr (t, out)" and
    d: "\<And>k. dict t k =
        (if k \<in> fst ` set (attributes c)
         then init_value (key c) el k (if k = ''id'' then Some PyNone else None)
         else if k = ''id'' then Some PyNone else None)"
    by blast
  from d [of "''id''"] assms have "dict t ''id'' = Some PyNone"
    by (simp add: id_attribute id_not_key init_value_def)
  with t assms show ?thesis
    by (simp add: constructed_attr_def getattr_def Tag_init_def)
qed

theorem id_of_constructed_tag_witness:
  "attrib \<lparr>tag = ''DATE'', attrib = [''start'' \<mapsto> ''10'', ''end'' \<mapsto> ''15'', ''TYPE'' \<mapsto> ''DATE'']\<rparr> ''id'' = None \<and>
   dict (Tag_init \<lparr>tag = ''DATE'', attrib = [''start'' \<mapsto> ''10'', ''end'' \<mapsto> ''15'', ''TYPE'' \<mapsto> ''DATE'']\<rparr>) ''id''
     = Some (PyStr []) \<and>
   constructed_attr DateTag
     \<lparr>tag = ''DATE'', attrib = [''start'' \<mapsto> ''10'', ''end'' \<mapsto> ''15'', ''TYPE'' \<mapsto> ''DATE'']\<rparr> ''id''
     = Inr (Some PyNone)"
  using id_of_constructed_tag [of "\<lparr>tag = ''DATE'', attrib = [''start'' \<mapsto> ''10'', ''end'' \<mapsto> ''15'', ''TYPE'' \<mapsto> ''DATE'']\<rparr>" DateTag]
  by simp

text \<open>
  The claim as stated fails: the \<^verbatim>\<open>PHITag\<close> built from an element without
  \<^verbatim>\<open>id\<close> has \<^verbatim>\<open>id = None\<close>, not the empty string.
\<close>
theorem id_of_annotator_tag_counterexample:
  "constructed_attr PHITag
     \<lparr>tag = ''DATE'', attrib = [''start'' \<mapsto> ''10'', ''end'' \<mapsto> ''15'', ''TYPE'' \<mapsto> ''DATE'']\<rparr> ''id''
     = Inr (Some PyNone) \<and>
   constructed_attr PHITag
     \<lparr>tag = ''DATE'', attrib = [''start'' \<mapsto> ''10'', ''end'' \<mapsto> ''15'', ''TYPE'' \<mapsto> ''DATE'']\<rparr> ''id''
     \<noteq> Inr (Some (PyStr []))"
  by (simp add: constructed_attr_def AnnotatorTag_init_def Tag_init_def attrs_defs then_do_def
        always_valid_def isint_def TYPE_in_def PHITag_valid_TYPE_def getattr_def int_eval str_eval)

subsection \<open>Validation, filters and severity labels\<close>

lemma validate_loop_eq: "is_valid_loop ks t as = validate_loop ks t as"
proof (induction as)
  case Nil
  show ?case by simp
next
  case (Cons a as)
  obtain k validp where a: "a = (k, validp)" by (cases a)
  show ?case
    unfolding a using Cons.IH
    by (simp split: sum.splits option.splits)
qed

lemma is_valid_loop_char:
  assumes "\<forall>(k, validp) \<in> set as. \<forall>v. getattr t k = Some v \<longrightarrow> (\<exists>b. validp v = Inr b)"
  shows "is_valid_loop ks t as =
           Inr ((\<forall>(k, validp) \<in> set as. \<forall>v. getattr t k = Some v \<longrightarrow> validp v = Inr True)
                \<and> (\<forall>(k, validp) \<in> set as. k \<in> set ks \<longrightarrow> getattr t k \<noteq> None))"
  using assms
proof (induction as)
  case Nil
  show ?case by simp
next
  case (Cons a as)
  obtain k validp where a: "a = (k, validp)" by (cases a)
  from Cons.prems have
    rest: "\<forall>(k, validp) \<in> set as. \<forall>v. getattr t k = Some v \<longrightarrow> (\<exists>b. validp v = Inr b)"
    by simp
  note IH = Cons.IH [OF rest]
  show ?case
  proof (cases "getattr t k")
    case None
    then show ?thesis unfolding a using IH by (cases "k \<in> set ks") auto
  next
    case (Some v)
    from Cons.prems a Some obtain b where b: "validp v = Inr b" by auto
    show ?thesis unfolding a using IH Some b by (cases b) auto
  qed
qed

lemma string_valued_total:
  assumes "string_valued c t" and "(k, validp) \<in> set (attributes c)" and "getattr t k = Some v"
  shows "\<exists>b. validp v = Inr b"
proof (cases v)
  case PyNone
  with assms have "k = ''id''" by (force simp: string_valued_def)
  with assms(2) show ?thesis using validator_id by blast
next
  case (PyStr s)
  with assms(2) show ?thesis using validator_on_str by blast
qed

lemma key_set:
  "(\<forall>(k, validp) \<in> set (attributes c). k \<in> set (key c) \<longrightarrow> getattr t k \<noteq> None)
     \<longleftrightarrow> (\<forall>k \<in> set (key c). getattr t k \<noteq> None)"
proof
  assume l: "\<forall>(k, validp) \<in> set (attributes c). k \<in> set (key c) \<longrightarrow> getattr t k \<noteq> None"
  show "\<forall>k \<in> set (key c). getattr t k \<noteq> None"
  proof
    fix k assume k: "k \<in> set (key c)"
    from key_in_attributes [OF k] show "getattr t k \<noteq> None"
    proof
      assume "k = ''name''" then show ?thesis by (simp add: getattr_def)
    next
      assume "k \<in> fst ` set (attributes c)"
      then obtain validp where "(k, validp) \<in> set (attributes c)" by auto
      with l k show ?thesis by auto
    qed
  qed
next
  assume "\<forall>k \<in> set (key c). getattr t k \<noteq> None"
  then show "\<forall>(k, validp) \<in> set (attributes c). k \<in> set (key c) \<longrightarrow> getattr t k \<noteq> None"
    by auto
qed

lemma is_valid_char:
  assumes "string_valued c t"
  shows "is_valid c t =
           Inr ((\<forall>(k, validp) \<in> set (attributes c). \<forall>v. getattr t k = Some v \<longrightarrow> validp v = Inr True)
                \<and> (\<forall>k \<in> set (key c). getattr t k \<noteq> None))"
proof -
  have "\<forall>(k, validp) \<in> set (attributes c). \<forall>v. getattr t k = Some v \<longrightarrow> (\<exists>b. validp v = Inr b)"
    using string_valued_total [OF assms] by blast
  from is_valid_loop_char [OF this, of "key c"] show ?thesis
    unfolding is_valid_def key_set by simp
qed

lemma constructed_string_valued:
  assumes "AnnotatorTag_init c el = Inr (t, out)"
  shows "string_valued c t"
proof -
  from AnnotatorTag_init_result [of c el] assms have
    d: "\<And>k. dict t k =
        (if k \<in> fst ` set (attributes c)
         then init_value (key c) el k (if k = ''id'' then Some PyNone else None)
         else if k = ''id'' then Some PyNone else None)"
    by auto
  show ?thesis
    unfolding string_valued_def
  proof (intro ballI impI)
    fix k assume k: "k \<in> fst ` set (attributes c)" and nid: "k \<noteq> ''id''"
    from k name_not_attribute [of c] have "k \<noteq> ''name''" by force
    with d [of k] k nid show "getattr t k \<noteq> Some PyNone"
      by (auto simp: getattr_def init_value_def split: option.splits)
  qed
qed

lemma unset_string_valued:
  assumes "string_valued c t" and "k \<noteq> ''name''"
  shows "string_valued c (t\<lparr>dict := (dict t)(k := None)\<rparr>)"
  using assms by (auto simp: string_valued_def getattr_def)

text \<open>
  Claim C8. \<^verbatim>\<open>is_valid()\<close> and \<^verbatim>\<open>validate()\<close> return the same result on every tag
  of every class. On a tag in the state the constructor establishes (every constructed
  tag is in it) the result is a boolean: true if and only if every declared attribute
  that is set passes its validator and every attribute of the key is set. Removing an
  attribute that is not in the key from a valid tag leaves it valid.
\<close>

theorem is_valid_validate:
  "is_valid c t = validate c t \<and>
   (string_valued c t \<longrightarrow>
      is_valid c t =
        Inr ((\<forall>(k, validp) \<in> set (attributes c). \<forall>v. getattr t k = Some v \<longrightarrow> validp v = Inr True)
             \<and> (\<forall>k \<in> set (key c). getattr t k \<noteq> None))) \<and>
   (string_valued c t \<and> is_valid c t = Inr True \<and> k \<notin> set (key c) \<longrightarrow>
      is_valid c (t\<lparr>dict := (dict t)(k := None)\<rparr>) = Inr True) \<and>
   (\<forall>el t' out. AnnotatorTag_init c el = Inr (t', out) \<longrightarrow> string_valued c t')"
proof (intro conjI impI allI)
  show "is_valid c t = validate c t"
    by (simp add: is_valid_def validate_def validate_loop_eq)
next
  assume "string_valued c t"
  then show "is_valid c t =
        Inr ((\<forall>(k, validp) \<in> set (attributes c). \<forall>v. getattr t k = Some v \<longrightarrow> validp v = Inr True)
             \<and> (\<forall>k \<in> set (key c). getattr t k \<noteq> None))"
    by (rule is_valid_char)
next
  assume a: "string_valued c t \<and> is_valid c t = Inr True \<and> k \<notin> set (key c)"
  have "''name'' \<in> set (key c)" by (cases c) simp_all
  with a have kn: "k \<noteq> ''name''" by auto
  let ?t = "t\<lparr>dict := (dict t)(k := None)\<rparr>"
  from a kn have sv: "string_valued c ?t" by (simp add: unset_string_valued)
  have g: "\<And>k'. getattr ?t k' = (if k' = k then None else getattr t k')"
    using kn by (simp add: getattr_def)
  from a have "(\<forall>(k, validp) \<in> set (attributes c). \<forall>v. getattr t k = Some v \<longrightarrow> validp v = Inr True)
             \<and> (\<forall>k \<in> set (key c). getattr t k \<noteq> None)"
    using is_valid_char [of c t] by simp
  with a have "(\<forall>(k, validp) \<in> set (attributes c). \<forall>v. getattr ?t k = Some v \<longrightarrow> validp v = Inr True)
             \<and> (\<forall>k \<in> set (key c). getattr ?t k \<noteq> None)"
    unfolding g by (auto split: if_splits)
  then show "is_valid c ?t = Inr True"
    using is_valid_char [OF sv] by simp
next
  fix el t' out assume "AnnotatorTag_init c el = Inr (t', out)"
  then show "string_valued c t'" by (rule constructed_string_valued)
qed

theorem is_valid_validate_witness:
  "string_valued DateTag
     \<lparr>name = ''DATE'', dict = [''id'' \<mapsto> PyNone, ''start'' \<mapsto> PyStr ''10'', ''end'' \<mapsto> PyStr ''15'', ''TYPE'' \<mapsto> PyStr ''date'']\<rparr> \<and>
   is_valid DateTag
     \<lparr>name = ''DATE'', dict = [''id'' \<mapsto> PyNone, ''start'' \<mapsto> PyStr ''10'', ''end'' \<mapsto> PyStr ''15'', ''TYPE'' \<mapsto> PyStr ''date'']\<rparr>
     = Inr True \<and>
   validate DateTag
     \<lparr>name = ''DATE'', dict = [''id'' \<mapsto> PyNone, ''start'' \<mapsto> PyStr ''10'', ''end'' \<mapsto> PyStr ''15'', ''TYPE'' \<mapsto> PyStr ''date'']\<rparr>
     = Inr True \<and>
   is_valid DateTag
     \<lparr>name = ''DATE'', dict = [''id'' \<mapsto> PyNone, ''start'' \<mapsto> PyStr ''10'', ''end'' \<mapsto> PyStr ''x'', ''TYPE'' \<mapsto> PyStr ''date'']\<rparr>
     = Inr False"
proof -
  let ?t = "\<lparr>name = ''DATE'', dict = [''id'' \<mapsto> PyNone, ''start'' \<mapsto> PyStr ''10'', ''end'' \<mapsto> PyStr ''15'', ''TYPE'' \<mapsto> PyStr ''date'']\<rparr>"
  let ?u = "\<lparr>name = ''DATE'', dict = [''id'' \<mapsto> PyNone, ''start'' \<mapsto> PyStr ''10'', ''end'' \<mapsto> PyStr ''x'', ''TYPE'' \<mapsto> PyStr ''date'']\<rparr>"
  have sv: "string_valued DateTag ?t" and su: "string_valued DateTag ?u"
    by (simp_all add: string_valued_def attrs_defs getattr_def)
  have "is_valid DateTag ?t = Inr True"
    using is_valid_validate [of DateTag ?t "''docid''", THEN conjunct2, THEN conjunct1, rule_format, OF sv]
    by (simp add: attrs_defs getattr_def always_valid_def isint_def TYPE_in_def int_eval str_eval)
  moreover have "is_valid DateTag ?t = validate DateTag ?t"
    using is_valid_validate [of DateTag ?t "''docid''"] by blast
  moreover have "is_valid DateTag ?u = Inr False"
    using is_valid_validate [of DateTag ?u "''docid''", THEN conjunct2, THEN conjunct1, rule_format, OF su]
    by (simp add: attrs_defs getattr_def always_valid_def isint_def TYPE_in_def int_eval str_eval)
  ultimately show ?thesis using sv by simp
qed

text \<open>
  Claim C6 fails on the code for \<^verbatim>\<open>OtherTag\<close>: its \<^verbatim>\<open>valid_TYPE\<close> is the string
  \<^verbatim>\<open>'OTHER'\<close>, so that \<^verbatim>\<open>in\<close> is the substring test, and the validator accepts
  \<^verbatim>\<open>the\<close>, whose upper case \<^verbatim>\<open>THE\<close> is not the legal value \<^verbatim>\<open>OTHER\<close>.
\<close>

theorem OtherTag_accepts_substring:
  "validator_of OtherTag ''TYPE'' (PyStr ''the'') = Inr True"
  by (simp add: validator_of_def attrs_defs TYPE_in_def upper_def upper_char_def
        lowercase_def uppercase_def)

lemma list_TYPE_validator:
  assumes "valid_TYPE c = Some (VList l)"
  shows "validator_of c ''TYPE'' (PyStr s) = Inr (upper s \<in> set l)"
  using assms
  by (cases c) (auto simp: validator_of_def attrs_defs TYPE_in_def PHITag_valid_TYPE_def)

text \<open>
  Claim C4 fails on the code: a filter value that is not a key of
  \<^verbatim>\<open>PHITag.tag_types\<close>, such as \<^verbatim>\<open>MEDICATION\<close>, reaches the loop over the
  unbound name \<^verbatim>\<open>MEDICAL_TAG_CLASSES\<close>, and \<^verbatim>\<open>get_predicate_function\<close> raises
  \<^verbatim>\<open>NameError\<close> before the branch that prints the warning and returns the
  always-true predicate.
\<close>

theorem unresolved_filter_raises:
  "get_predicate_function ''MEDICATION'' PHITag_tag_types = Inl NameError"
  by (simp add: get_predicate_function_def resolve_attrs_def MEDICAL_TAG_CLASSES_def
        PHITag_tag_types_def then_do_def)

lemma matchp_iff:
  "matchp attrs arg t \<longleftrightarrow>
     (\<exists>a \<in> set attrs. \<exists>s. getattr t a = Some (PyStr s) \<and> lower s = lower arg)"
proof (induction attrs)
  case Nil
  show ?case by simp
next
  case (Cons attr rest)
  show ?case
  proof (cases "attr = ''name'' \<and> name t = arg")
    case True
    then have "getattr t attr = Some (PyStr (name t)) \<and> lower (name t) = lower arg"
      by (simp add: getattr_def)
    with True show ?thesis by auto
  next
    case False
    then show ?thesis using Cons.IH
      by (auto split: option.splits pyval.splits)
  qed
qed

text \<open>
  Claim C5. For every list of resolved attributes and every filter value, the predicate
  \<^verbatim>\<open>matchp\<close> is true of a tag if and only if one of the resolved attributes is set
  on the tag to a string equal to the value after lowering both; the tag's
  \<^verbatim>\<open>name\<close> is one such attribute among the others. And when the filter value
  resolves to a non-empty list of attributes, \<^verbatim>\<open>get_predicate_function\<close> prints
  nothing and returns this predicate for the resolved list.
\<close>

theorem predicate_matches_resolved:
  "(matchp attrs arg t \<longleftrightarrow>
      (\<exists>a \<in> set attrs. \<exists>s. getattr t a = Some (PyStr s) \<and> lower s = lower arg)) \<and>
   (resolve_attrs MEDICAL_TAG_CLASSES tag_types arg = Inr attrs \<and> attrs \<noteq> [] \<longrightarrow>
      get_predicate_function arg tag_types = Inr ([], matchp attrs arg))"
proof (intro conjI impI)
  show "matchp attrs arg t \<longleftrightarrow>
      (\<exists>a \<in> set attrs. \<exists>s. getattr t a = Some (PyStr s) \<and> lower s = lower arg)"
    by (rule matchp_iff)
next
  assume "resolve_attrs MEDICAL_TAG_CLASSES tag_types arg = Inr attrs \<and> attrs \<noteq> []"
  then show "get_predicate_function arg tag_types = Inr ([], matchp attrs arg)"
    by (simp add: get_predicate_function_def then_do_def)
qed

text \<open>
  With two resolved attributes the second one decides, an attribute that is
  \<^verbatim>\<open>None\<close> or holds another value does not match, and the category \<^verbatim>\<open>DATE\<close>
  resolves to \<^verbatim>\<open>name\<close>.
\<close>
theorem predicate_matches_resolved_witness:
  "matchp [''type1'', ''type2''] ''ACE Inhibitor''
     \<lparr>name = ''MEDICATION'', dict = [''type2'' \<mapsto> PyStr ''ace inhibitor'']\<rparr> \<and>
   \<not> matchp [''type1'', ''type2''] ''ACE Inhibitor''
     \<lparr>name = ''MEDICATION'', dict = [''type1'' \<mapsto> PyStr ''statin'', ''type2'' \<mapsto> PyNone]\<rparr> \<and>
   resolve_attrs MEDICAL_TAG_CLASSES PHITag_tag_types ''DATE'' = Inr [''name''] \<and>
   get_predicate_function ''DATE'' PHITag_tag_types = Inr ([], matchp [''name''] ''DATE'') \<and>
   matchp [''name''] ''DATE'' \<lparr>name = ''Date'', dict = Map.empty\<rparr> \<and>
   \<not> matchp [''name''] ''DATE'' \<lparr>name = ''AGE'', dict = Map.empty\<rparr>"
proof -
  let ?m = "\<lparr>name = ''MEDICATION'', dict = [''type2'' \<mapsto> PyStr ''ace inhibitor'']\<rparr>"
  let ?n = "\<lparr>name = ''MEDICATION'', dict = [''type1'' \<mapsto> PyStr ''statin'', ''type2'' \<mapsto> PyNone]\<rparr>"
  let ?d = "\<lparr>name = ''Date'', dict = Map.empty\<rparr>"
  let ?a = "\<lparr>name = ''AGE'', dict = Map.empty\<rparr>"
  have m: "matchp [''type1'', ''type2''] ''ACE Inhibitor'' ?m"
    using predicate_matches_resolved [of "[''type1'', ''type2'']" "''ACE Inhibitor''" ?m "[]",
        THEN conjunct1]
    by (simp add: getattr_def str_eval)
  have n: "\<not> matchp [''type1'', ''type2''] ''ACE Inhibitor'' ?n"
    using predicate_matches_resolved [of "[''type1'', ''type2'']" "''ACE Inhibitor''" ?n "[]",
        THEN conjunct1]
    by (simp add: getattr_def str_eval)
  have r: "resolve_attrs MEDICAL_TAG_CLASSES PHITag_tag_types ''DATE'' = Inr [''name'']"
    by (simp add: resolve_attrs_def PHITag_tag_types_def)
  have p: "get_predicate_function ''DATE'' PHITag_tag_types = Inr ([], matchp [''name''] ''DATE'')"
    using predicate_matches_resolved [of "[''name'']" "''DATE''" ?d PHITag_tag_types,
        THEN conjunct2] r
    by simp
  have d: "matchp [''name''] ''DATE'' ?d"
    using predicate_matches_resolved [of "[''name'']" "''DATE''" ?d "[]", THEN conjunct1]
    by (simp add: getattr_def str_eval)
  have a: "\<not> matchp [''name''] ''DATE'' ?a"
    using predicate_matches_resolved [of "[''name'']" "''DATE''" ?a "[]", THEN conjunct1]
    by (simp add: getattr_def str_eval)
  from m n r p d a show ?thesis by blast
qed

lemma predictions_abort:
  "(f, found) \<in> set fs \<Longrightarrow> isl (snd (get_prediction f found)) \<Longrightarrow> isl (snd (predictions fs))"
proof (induction fs)
  case Nil
  then show ?case by simp
next
  case (Cons a fs)
  obtain g fg where a: "a = (g, fg)" by (cases a)
  show ?case
  proof (cases "snd (get_prediction g fg)")
    case (Inl e)
    then show ?thesis unfolding a by (cases "get_prediction g fg") auto
  next
    case (Inr v)
    with Cons.prems a have "(f, found) \<in> set fs" by auto
    from Cons.IH [OF this Cons.prems(2)] Inr show ?thesis
      unfolding a
      by (cases "get_prediction g fg"; cases "predictions fs") (auto split: sum.splits)
  qed
qed

lemma evaluate_rdoc_abort:
  assumes "(f, found) \<in> set gold \<union> set syst" and "isl (snd (get_prediction f found))"
  shows "isl (snd (evaluate_rdoc gold syst))"
proof (cases "set (map fst gold) \<noteq> set (map fst syst)")
  case True
  then show ?thesis by (simp add: evaluate_rdoc_def)
next
  case False
  show ?thesis
  proof (cases "(f, found) \<in> set gold")
    case True
    from predictions_abort [OF True assms(2)] False show ?thesis
      by (cases "predictions gold") (auto simp: evaluate_rdoc_def split: sum.splits)
  next
    case f2: False
    with assms have "(f, found) \<in> set syst" by auto
    from predictions_abort [OF this assms(2)] False show ?thesis
      by (cases "predictions gold"; cases "predictions syst")
         (auto simp: evaluate_rdoc_def split: sum.splits)
  qed
qed

lemma level2score_cases:
  "level2score l =
     (if l = ''ABSENT'' then Some 0 else if l = ''MILD'' then Some 1
      else if l = ''MODERATE'' then Some 2 else if l = ''SEVERE'' then Some 3 else None)"
  by (simp add: level2score_def)

text \<open>
  Claim C9. For a file whose first \<^verbatim>\<open>POSITIVE_VALENCE\<close> element carries a
  \<^verbatim>\<open>score\<close>, \<^verbatim>\<open>get_prediction\<close> maps the label, raised to upper case and then
  stripped, as ABSENT to 0, MILD to 1, MODERATE to 2, SEVERE to 3, and raises
  (\<^verbatim>\<open>wrong_severity_value\<close>) if and only if the label is none of the four; and when
  such a file is among those of the gold or of the system folder, \<^verbatim>\<open>evaluate_rdoc\<close>
  ends with an exception and no score.
\<close>

theorem get_prediction_label:
  assumes "found = e # rest" and "attrib e ''score'' = Some s"
  shows "snd (get_prediction f found) =
           (if strip (upper s) = ''ABSENT'' then Inr 0
            else if strip (upper s) = ''MILD'' then Inr 1
            else if strip (upper s) = ''MODERATE'' then Inr 2
            else if strip (upper s) = ''SEVERE'' then Inr 3
            else Inl wrong_severity_value)
         \<and> (isl (snd (get_prediction f found)) \<longleftrightarrow> strip (upper s) \<notin> severity_labels)
         \<and> (strip (upper s) \<notin> severity_labels \<and> (f, found) \<in> set gold \<union> set syst
              \<longrightarrow> isl (snd (evaluate_rdoc gold syst)))"
proof -
  have v: "snd (get_prediction f found) =
           (if strip (upper s) = ''ABSENT'' then Inr 0
            else if strip (upper s) = ''MILD'' then Inr 1
            else if strip (upper s) = ''MODERATE'' then Inr 2
            else if strip (upper s) = ''SEVERE'' then Inr 3
            else Inl wrong_severity_value)"
    using assms by (simp add: get_prediction_def level2score_cases Let_def)
  then have i: "isl (snd (get_prediction f found)) \<longleftrightarrow> strip (upper s) \<notin> severity_labels"
    by (simp add: severity_labels_def)
  have "strip (upper s) \<notin> severity_labels \<and> (f, found) \<in> set gold \<union> set syst
              \<longrightarrow> isl (snd (evaluate_rdoc gold syst))"
    using i evaluate_rdoc_abort by blast
  with v i show ?thesis by blast
qed

theorem get_prediction_label_witness:
  "snd (get_prediction ''a.xml'' [\<lparr>tag = ''POSITIVE_VALENCE'', attrib = [''score'' \<mapsto> '' Mild '']\<rparr>]) = Inr 1 \<and>
   snd (get_prediction ''b.xml'' [\<lparr>tag = ''POSITIVE_VALENCE'', attrib = [''score'' \<mapsto> ''HIGH'']\<rparr>])
     = Inl wrong_severity_value \<and>
   isl (snd (evaluate_rdoc
     [(''b.xml'', [\<lparr>tag = ''POSITIVE_VALENCE'', attrib = [''score'' \<mapsto> ''HIGH'']\<rparr>])]
     [(''b.xml'', [\<lparr>tag = ''POSITIVE_VALENCE'', attrib = [''score'' \<mapsto> ''MILD'']\<rparr>])]))"
proof -
  let ?e1 = "\<lparr>tag = ''POSITIVE_VALENCE'', attrib = [''score'' \<mapsto> '' Mild '']\<rparr>"
  let ?e2 = "\<lparr>tag = ''POSITIVE_VALENCE'', attrib = [''score'' \<mapsto> ''HIGH'']\<rparr>"
  let ?e3 = "\<lparr>tag = ''POSITIVE_VALENCE'', attrib = [''score'' \<mapsto> ''MILD'']\<rparr>"
  have "snd (get_prediction ''a.xml'' [?e1]) = Inr 1"
    using get_prediction_label [of "[?e1]" ?e1 "[]" "'' Mild ''" "''a.xml''" "[]" "[]"]
    by (simp add: str_eval)
  moreover have "snd (get_prediction ''b.xml'' [?e2]) = Inl wrong_severity_value"
    using get_prediction_label [of "[?e2]" ?e2 "[]" "''HIGH''" "''b.xml''" "[]" "[]"]
    by (simp add: str_eval)
  moreover have "isl (snd (evaluate_rdoc [(''b.xml'', [?e2])] [(''b.xml'', [?e3])]))"
    using get_prediction_label [of "[?e2]" ?e2 "[]" "''HIGH''" "''b.xml''"
        "[(''b.xml'', [?e2])]" "[(''b.xml'', [?e3])]"]
    by (simp add: str_eval severity_labels_def)
  ultimately show ?thesis by simp
qed

subsection \<open>The ordinal score\<close>

lemma zip_nth_positions:
  assumes "length x = length y"
  shows "zip x y = map (\<lambda>i. (x ! i, y ! i)) [0..<length x]"
  using assms by (intro nth_equalityI) simp_all

lemma filter_zip_positions:
  assumes "length x = length y"
  shows "filter (\<lambda>(a, b). a = s) (zip x y) = map (\<lambda>i. (x ! i, y ! i)) (positions x s)"
proof -
  have "filter (\<lambda>(a, b). a = s) (zip x y) =
        filter (\<lambda>(a, b). a = s) (map (\<lambda>i. (x ! i, y ! i)) [0..<length x])"
    using zip_nth_positions [OF assms] by simp
  also have "\<dots> = map (\<lambda>i. (x ! i, y ! i)) (filter (\<lambda>i. x ! i = s) [0..<length x])"
    by (simp add: filter_map comp_def)
  finally show ?thesis by (simp add: positions_def)
qed

lemma positions_nonempty: "s \<in> set x \<Longrightarrow> positions x s \<noteq> []"
proof -
  assume "s \<in> set x"
  then obtain i where "i < length x" and "x ! i = s" by (auto simp: in_set_conv_nth)
  then have "i \<in> set (positions x s)" by (simp add: positions_def)
  then show ?thesis by auto
qed

lemma length_positions: "length (positions x s) = count_list x s"
proof -
  have "map (\<lambda>i. x ! i) (positions x s) = filter (\<lambda>a. a = s) (map (\<lambda>i. x ! i) [0..<length x])"
    by (simp add: positions_def filter_map comp_def)
  also have "\<dots> = filter (\<lambda>a. a = s) x" by (simp add: map_nth)
  finally have "length (positions x s) = length (filter (\<lambda>a. a = s) x)"
    by (metis length_map)
  also have "\<dots> = count_list x s"
    by (induction x) simp_all
  finally show ?thesis .
qed

lemma mae_filtered:
  assumes "length x = length y"
  shows "mean_absolute_error (map fst (filter (\<lambda>(a, b). a = s) (zip x y)))
           (map snd (filter (\<lambda>(a, b). a = s) (zip x y))) = spec_MAE x y s"
proof -
  let ?ps = "filter (\<lambda>(a, b). a = s) (zip x y)"
  have z: "zip (map fst ?ps) (map snd ?ps) = ?ps" by (simp add: zip_map_fst_snd)
  have "sum_list (map (\<lambda>(g, s). \<bar>s - g\<bar>) ?ps) = (\<Sum>i\<leftarrow>positions x s. \<bar>y ! i - x ! i\<bar>)"
    by (simp add: filter_zip_positions [OF assms] comp_def)
  moreover have "length ?ps = length (positions x s)"
    by (simp add: filter_zip_positions [OF assms])
  ultimately show ?thesis
    unfolding mean_absolute_error_def z spec_MAE_def by simp
qed

lemma score_loop_step:
  assumes "length x = length y" and "s \<in> set x"
  shows "score_loop x y (s # rest) (maes, stats) =
           score_loop x y rest
             (maes @ [loop_class_score x y s],
              stats(s \<mapsto> (count_list x s, count_list y s, loop_class_score x y s)))"
proof -
  let ?ps = "filter (\<lambda>(a, b). a = s) (zip x y)"
  have ne: "?ps \<noteq> []"
    using positions_nonempty [OF assms(2)] by (simp add: filter_zip_positions [OF assms(1)])
  then obtain p ps where ps: "?ps = p # ps" by (cases ?ps) auto
  have len: "length (map fst ?ps) = count_list x s"
    by (simp add: filter_zip_positions [OF assms(1)] length_positions)
  have "score_loop x y (s # rest) (maes, stats) =
          score_loop x y rest
            (maes @ [100 * (1 - mean_absolute_error (map fst ?ps) (map snd ?ps)
                                  / (if s \<in> {0, 3} then 3 else 2))],
             stats(s \<mapsto> (length (map fst ?ps), count_list y s,
                          100 * (1 - mean_absolute_error (map fst ?ps) (map snd ?ps)
                                  / (if s \<in> {0, 3} then 3 else 2)))))"
    by (simp only: score_loop.simps ps list.case Let_def)
  then show ?thesis
    unfolding mae_filtered [OF assms(1)] len loop_class_score_def .
qed

lemma score_loop_result:
  assumes "length x = length y" and "set ss \<subseteq> set x"
  shows "score_loop x y ss (maes, stats) =
           Inr (maes @ map (loop_class_score x y) ss,
                (\<lambda>s. if s \<in> set ss
                     then Some (count_list x s, count_list y s, loop_class_score x y s)
                     else stats s))"
  using assms(2)
proof (induction ss arbitrary: maes stats)
  case Nil
  show ?case by simp
next
  case (Cons s ss)
  then have s: "s \<in> set x" and ss: "set ss \<subseteq> set x" by auto
  show ?case
    unfolding score_loop_step [OF assms(1) s] Cons.IH [OF ss]
    by (auto simp: fun_eq_iff)
qed

lemma compute_score_result:
  assumes "length x = length y" and "x \<noteq> []"
  shows "compute_score x y =
           Inr ((\<lambda>s. if s \<in> set x
                     then Some (count_list x s, count_list y s, loop_class_score x y s)
                     else None),
                (\<Sum>s \<in> set x. loop_class_score x y s) / real (card (set x)))"
proof -
  have ne: "length (remdups x) \<noteq> 0" using assms(2) by simp
  have l: "score_loop x y (remdups x) ([], Map.empty) =
           Inr (map (loop_class_score x y) (remdups x),
                (\<lambda>s. if s \<in> set x
                     then Some (count_list x s, count_list y s, loop_class_score x y s)
                     else None))"
    using score_loop_result [OF assms(1), of "remdups x" "[]" Map.empty] by simp
  have s: "sum_list (map (loop_class_score x y) (remdups x)) = (\<Sum>s \<in> set x. loop_class_score x y s)"
    using sum_list_distinct_conv_sum_set [of "remdups x" "loop_class_score x y"] by simp
  have c: "length (remdups x) = card (set x)" by (simp add: length_remdups_card_conv)
  show ?thesis
    unfolding compute_score_def l then_do_def using ne by (simp add: s c)
qed

lemma loop_class_score_spec:
  "s \<in> {0, 1, 2, 3} \<Longrightarrow> loop_class_score x y s = spec_class_score x y s"
  by (auto simp: loop_class_score_def spec_class_score_def spec_norm_def)

lemmas score_eval = spec_class_score_def spec_MAE_def spec_norm_def positions_def

text \<open>
  Claim C3, as amended. For two label sequences of the same length, the gold one \<open>x\<close>
  non-empty and over 0, 1, 2, 3, \<^verbatim>\<open>compute_score\<close> returns for each value \<open>s\<close> of
  \<open>x\<close> the supports of \<open>s\<close> in the two sequences and the percentage
  \<open>100 (1 - MAE / n)\<close>, where \<open>MAE\<close> is the mean absolute error over the positions at
  which \<open>x\<close> holds \<open>s\<close> and \<open>n\<close> is 3 for 0 and 3 and 2 for 1 and 2, and returns as
  overall score the unweighted mean of these percentages over the values of \<open>x\<close>.
  The arithmetic is exact: the rounding of float64 is not modelled.
\<close>

theorem compute_score_per_class:
  assumes "length x = length y" and "x \<noteq> []" and "set x \<subseteq> {0, 1, 2, 3}"
  shows "\<exists>stats score. compute_score x y = Inr (stats, score) \<and>
           (\<forall>s \<in> set x. stats s = Some (count_list x s, count_list y s, spec_class_score x y s)) \<and>
           (\<forall>s. s \<notin> set x \<longrightarrow> stats s = None) \<and>
           score = (\<Sum>s \<in> set x. spec_class_score x y s) / real (card (set x))"
proof -
  have e: "\<And>s. s \<in> set x \<Longrightarrow> loop_class_score x y s = spec_class_score x y s"
    using assms(3) loop_class_score_spec by blast
  then have "(\<Sum>s \<in> set x. loop_class_score x y s) = (\<Sum>s \<in> set x. spec_class_score x y s)"
    by simp
  with e show ?thesis
    unfolding compute_score_result [OF assms(1,2)] by simp
qed

text \<open>
  The example of the specification: gold 0, 0, 3, 3 against 0, 1, 3, 2 gives
  \<open>250 / 3\<close>, that is 83.33 per cent, for the classes 0 and 3 and overall.
\<close>
theorem compute_score_per_class_witness:
  "\<exists>stats. compute_score [0, 0, 3, 3] [0, 1, 3, 2] = Inr (stats, 250 / 3) \<and>
     stats 0 = Some (2, 1, 250 / 3) \<and> stats 3 = Some (2, 1, 250 / 3) \<and>
     stats 1 = None \<and> stats 2 = None"
proof -
  have h: "length [0, 0, 3, 3 :: int] = length [0, 1, 3, 2 :: int]" "[0, 0, 3, 3 :: int] \<noteq> []"
    "set [0, 0, 3, 3 :: int] \<subseteq> {0, 1, 2, 3}"
    by simp_all
  have s0: "spec_class_score [0, 0, 3, 3] [0, 1, 3, 2] 0 = 250 / 3"
    by (simp add: score_eval upt_rec)
  have s3: "spec_class_score [0, 0, 3, 3] [0, 1, 3, 2] 3 = 250 / 3"
    by (simp add: score_eval upt_rec)
  from compute_score_per_class [OF h] obtain stats score where
    c: "compute_score [0, 0, 3, 3] [0, 1, 3, 2] = Inr (stats, score)" and
    p: "\<forall>s \<in> set [0, 0, 3, 3]. stats s =
          Some (count_list [0, 0, 3, 3] s, count_list [0, 1, 3, 2] s,
                spec_class_score [0, 0, 3, 3] [0, 1, 3, 2] s)" and
    n: "\<forall>s. s \<notin> set [0, 0, 3, 3 :: int] \<longrightarrow> stats s = None" and
    m: "score = (\<Sum>s \<in> set [0, 0, 3, 3]. spec_class_score [0, 0, 3, 3] [0, 1, 3, 2] s)
                / real (card (set [0, 0, 3, 3 :: int]))"
    by blast
  from p have "stats 0 = Some (2, 1, 250 / 3)" and "stats 3 = Some (2, 1, 250 / 3)"
    by (simp_all add: s0 s3)
  moreover from n have "stats 1 = None" and "stats 2 = None" by simp_all
  moreover from m have "score = 250 / 3" by (simp add: s0 s3)
  ultimately show ?thesis using c by blast
qed

text \<open>
  The claim as stated, for every pair of sequences of the same length, fails on the
  empty pair: there \<^verbatim>\<open>sum(mae_per_score) / len(set(x))\<close> is \<^verbatim>\<open>0 / 0\<close>.
\<close>
theorem compute_score_empty_counterexample:
  "compute_score [] [] = Inl ZeroDivisionError"
  by (simp add: compute_score_def then_do_def)

lemma spec_MAE_identical: "spec_MAE x x s = 0"
  by (simp add: spec_MAE_def)

text \<open>
  Claim C10. For a non-empty label sequence \<open>x\<close>, \<^verbatim>\<open>compute_score(x, x)\<close> returns
  the overall score 100 and the score 100 for every value that occurs in \<open>x\<close>.
\<close>

theorem compute_score_identical:
  assumes "x \<noteq> []"
  shows "\<exists>stats. compute_score x x = Inr (stats, 100) \<and>
           (\<forall>s \<in> set x. stats s = Some (count_list x s, count_list x s, 100))"
proof -
  have l: "\<And>s. loop_class_score x x s = 100"
    by (simp add: loop_class_score_def spec_MAE_identical)
  have "card (set x) \<noteq> 0" using assms by simp
  then have "(\<Sum>s \<in> set x. loop_class_score x x s) / real (card (set x)) = 100"
    by (simp add: l)
  then show ?thesis
    unfolding compute_score_result [OF refl assms] by (simp add: l)
qed

theorem compute_score_identical_witness:
  "\<exists>stats. compute_score [0, 1, 1, 3] [0, 1, 1, 3] = Inr (stats, 100) \<and>
     stats 0 = Some (1, 1, 100) \<and> stats 1 = Some (2, 2, 100) \<and> stats 3 = Some (1, 1, 100)"
proof -
  have "[0, 1, 1, 3 :: int] \<noteq> []" by simp
  from compute_score_identical [OF this] obtain stats where
    "compute_score [0, 1, 1, 3] [0, 1, 1, 3] = Inr (stats, 100)" and
    "\<forall>s \<in> set [0, 1, 1, 3]. stats s =
       Some (count_list [0, 1, 1, 3] s, count_list [0, 1, 1, 3] s, 100)"
    by blast
  then show ?thesis by auto
qed

end
